theory Spec2Isabelle
  imports Complex_Main "HOL-Library.Word"
begin

section \<open>Numbers of the source\<close>

text \<open>
  The TypeScript source computes with JavaScript numbers. Image dimensions and byte
  lengths are integers. The encoder quality starts at the integer 95 and is multiplied
  by 0.8, so it is a rational number here. The model computes exactly, where the source
  rounds each product and quotient to the nearest double. On the numbers that occur
  (image sides far below \<open>2 ^ 43\<close>, the qualities \<open>95 * 0.8 ^ j\<close>) the doubles compare, and
  round to integers, as the exact numbers do.
\<close>

definition Math_round :: "rat \<Rightarrow> int" where
  \<comment> \<open>JavaScript's \<open>Math.round\<close>: the nearest integer, a tie going towards \<open>+\<infinity>\<close>.\<close>
  "Math_round x = \<lfloor>x + 1 / 2\<rfloor>"

definition MAX_FILE_SIZE :: nat where
  "MAX_FILE_SIZE = 500 * 1024"

definition MAX_DIMENSION :: int where
  "MAX_DIMENSION = 1024"

section \<open>Dimension planning (index.ts, lines 53 to 69)\<close>

text \<open>
  The new width and height that \<open>resizeImage\<close> computes from the metadata. The source
  compares against the constant \<open>MAX_DIMENSION\<close>; the bound is a parameter here, and
  \<open>resizeImage\<close> below passes \<open>MAX_DIMENSION\<close>.
\<close>

definition newDimensions :: "int \<Rightarrow> int \<Rightarrow> int \<Rightarrow> int \<times> int" where
  "newDimensions maxDimension width height =
     (if width > height then
        (if width > maxDimension
         then (maxDimension, Math_round (of_int (height * maxDimension) / of_int width))
         else (width, height))
      else
        (if height > maxDimension
         then (Math_round (of_int (width * maxDimension) / of_int height), maxDimension)
         else (width, height)))"

section \<open>External collaborators and effects\<close>

text \<open>
  \<open>resizeImage\<close> and \<open>processAllImages\<close> call the image library (sharp), the path
  library, the directory scan and the storage provider. None of them is part of the
  repository: they are the fields of an environment, each a function from the
  arguments of the call to its result, \<open>Inl\<close> when the call throws.
\<close>

type_synonym Buffer = "8 word list"

datatype error = Error string

datatype format_options =
    Jpeg rat bool    \<comment> \<open>\<open>.jpeg({ quality, mozjpeg })\<close>\<close>
  | Png int rat      \<comment> \<open>\<open>.png({ compressionLevel, quality })\<close>\<close>
  | Webp rat         \<comment> \<open>\<open>.webp({ quality })\<close>\<close>
  | NoFormat         \<comment> \<open>no output format is set: the encoder's own defaults\<close>

record env =
  path_extname :: "string \<Rightarrow> string"
  path_join :: "string \<Rightarrow> string \<Rightarrow> string"
  glob_scan :: "string \<Rightarrow> error + string list"
  sharp_metadata :: "string \<Rightarrow> error + (int option \<times> int option)"
  sharp_toBuffer :: "string \<Rightarrow> int \<Rightarrow> int \<Rightarrow> format_options \<Rightarrow> error + Buffer"
  storage_ensureDestination :: "string \<Rightarrow> error + unit"
  storage_write :: "string \<Rightarrow> Buffer \<Rightarrow> error + unit"
  storage_getSize :: "string \<Rightarrow> error + nat"

text \<open>
  \<open>sharp_metadata\<close> gives the optional \<open>width\<close> and \<open>height\<close> of the metadata.
  \<open>sharp_toBuffer inputPath newWidth newHeight options\<close> stands for the pipeline of one
  loop iteration: \<open>image.resize(newWidth, newHeight, {lanczos3, inside,
  withoutEnlargement})\<close>, the format call, and \<open>toBuffer()\<close>.

  The effects are recorded in the order they happen: the lines written to the console
  (one constructor for each \<open>console.log\<close> and \<open>console.error\<close> of index.ts, holding
  what it prints), the encoder calls (each with the \<open>quality\<close> of the loop at the call),
  and the calls of \<open>storage.write\<close>.
\<close>

datatype console_line =
    OutputFolderReady string
  | ErrorCreatingOutputFolder error
  | Processing string
  | AdjustingQuality rat nat
  | Converted string string
  | SizeLine nat nat
  | DimensionsLine int int int int
  | QualityLine rat
  | ErrorProcessing string error
  | Starting
  | OriginalFolderUnreadable
  | NoSupportedImages
  | Found nat
  | FailedToProcess string error
  | Completed
  | SuccessfullyProcessed nat
  | FailedCount nat
  | ErrorDuringProcessing error

record encode_call =
  call_quality :: rat
  call_width :: int
  call_height :: int
  call_options :: format_options

record world =
  console :: "console_line list"
  encodes :: "encode_call list"
  writes :: "(string \<times> Buffer) list"

definition log :: "console_line \<Rightarrow> world \<Rightarrow> world" where
  "log l w = w\<lparr>console := console w @ [l]\<rparr>"

section \<open>Constants and helpers of index.ts\<close>

definition ORIGINAL_FOLDER :: string where
  "ORIGINAL_FOLDER = ''./original''"

definition OUTPUT_FOLDER :: string where
  "OUTPUT_FOLDER = ''./output''"

definition SUPPORTED_FORMATS :: "string list" where
  "SUPPORTED_FORMATS = [''.jpg'', ''.jpeg'', ''.png'', ''.webp'', ''.tiff'', ''.bmp'']"

definition maxAttempts :: nat where
  "maxAttempts = 10"

definition toLowerCase :: "string \<Rightarrow> string" where
  \<comment> \<open>\<open>String.prototype.toLowerCase\<close>, on the ASCII letters.\<close>
  "toLowerCase s =
     map (\<lambda>c. case map_of (zip ''ABCDEFGHIJKLMNOPQRSTUVWXYZ'' ''abcdefghijklmnopqrstuvwxyz'') c of
                 Some l \<Rightarrow> l
               | None \<Rightarrow> c) s"

definition getExtension :: "env \<Rightarrow> string \<Rightarrow> string" where
  "getExtension env fileName = toLowerCase (path_extname env fileName)"

definition isSupportedImageFormat :: "env \<Rightarrow> string \<Rightarrow> bool" where
  "isSupportedImageFormat env fileName \<longleftrightarrow> getExtension env fileName \<in> set SUPPORTED_FORMATS"

definition ensureOutputFolder :: "env \<Rightarrow> world \<Rightarrow> (error + unit) \<times> world" where
  "ensureOutputFolder env w =
     (case storage_ensureDestination env OUTPUT_FOLDER of
        Inr u \<Rightarrow> (Inr (), log (OutputFolderReady OUTPUT_FOLDER) w)
      | Inl e \<Rightarrow> (Inl e, log (ErrorCreatingOutputFolder e) w))"

definition getFileSize :: "env \<Rightarrow> string \<Rightarrow> error + nat" where
  "getFileSize env filePath = storage_getSize env filePath"

section \<open>The quality search (index.ts, lines 71 to 117)\<close>

text \<open>The format call of one iteration (lines 87 to 102), chosen by the extension.\<close>

definition formatOptions :: "string \<Rightarrow> rat \<Rightarrow> format_options" where
  "formatOptions ext quality =
     (if ext = ''.jpg'' \<or> ext = ''.jpeg'' then Jpeg quality True
      else if ext = ''.png''
        then Png (min 9 (Math_round ((9 * (100 - quality)) / 100))) quality
      else if ext = ''.webp'' then Webp quality
      else NoFormat)"

text \<open>
  The \<open>do ... while\<close> loop. One call of \<open>encodeLoop\<close> is one iteration, entered with
  the current \<open>quality\<close> and \<open>attempts\<close>; it returns the final \<open>buffer\<close>, \<open>quality\<close> and
  \<open>attempts\<close>, or the error thrown by the encoder.
\<close>

function encodeLoop ::
  "env \<Rightarrow> string \<Rightarrow> string \<Rightarrow> int \<Rightarrow> int \<Rightarrow> rat \<Rightarrow> nat \<Rightarrow> world
     \<Rightarrow> (error + Buffer \<times> rat \<times> nat) \<times> world" where
  "encodeLoop env inputPath outputPath newWidth newHeight quality attempts w =
     (let attempts1 = attempts + 1;
          ext = getExtension env outputPath;
          options = formatOptions ext quality;
          w1 = w\<lparr>encodes := encodes w @
                  [\<lparr>call_quality = quality, call_width = newWidth,
                    call_height = newHeight, call_options = options\<rparr>]\<rparr>
      in case sharp_toBuffer env inputPath newWidth newHeight options of
           Inl e \<Rightarrow> (Inl e, w1)
         | Inr buffer \<Rightarrow>
             if length buffer > MAX_FILE_SIZE \<and> quality > 10 then
               (let quality1 = max 10 (quality * 0.8);
                    w2 = log (AdjustingQuality quality1 attempts1) w1
                in if length buffer > MAX_FILE_SIZE \<and> attempts1 < maxAttempts \<and> quality1 > 10
                   then encodeLoop env inputPath outputPath newWidth newHeight quality1 attempts1 w2
                   else (Inr (buffer, quality1, attempts1), w2))
             else (Inr (buffer, quality, attempts1), w1))"
  by pat_completeness auto
termination
  by (relation "measure (\<lambda>(env, inputPath, outputPath, newWidth, newHeight, quality, attempts, w).
                  maxAttempts - attempts)") auto

section \<open>resizeImage and processAllImages\<close>

text \<open>The body of the \<open>try\<close> block of \<open>resizeImage\<close> (lines 43 to 132).\<close>

definition resizeImage_try :: "env \<Rightarrow> string \<Rightarrow> string \<Rightarrow> world \<Rightarrow> (error + unit) \<times> world" where
  "resizeImage_try env inputPath outputPath w =
     (let w0 = log (Processing inputPath) w
      in case sharp_metadata env inputPath of
           Inl e \<Rightarrow> (Inl e, w0)
         | Inr (None, mh) \<Rightarrow> (Inl (Error ''Unable to read image dimensions''), w0)
         | Inr (Some width, None) \<Rightarrow> (Inl (Error ''Unable to read image dimensions''), w0)
         | Inr (Some width, Some height) \<Rightarrow>
             if width = 0 \<or> height = 0
             then (Inl (Error ''Unable to read image dimensions''), w0)
             else
               (let (newWidth, newHeight) = newDimensions MAX_DIMENSION width height
                in case encodeLoop env inputPath outputPath newWidth newHeight 95 0 w0 of
                     (Inl e, w1) \<Rightarrow> (Inl e, w1)
                   | (Inr (buffer, quality, attempts), w1) \<Rightarrow>
                       (let w2 = w1\<lparr>writes := writes w1 @ [(outputPath, buffer)]\<rparr>
                        in case storage_write env outputPath buffer of
                             Inl e \<Rightarrow> (Inl e, w2)
                           | Inr u \<Rightarrow>
                               (case getFileSize env inputPath of
                                  Inl e \<Rightarrow> (Inl e, w2)
                                | Inr originalSize \<Rightarrow>
                                    (let newSize = length buffer
                                     in (Inr (),
                                         log (QualityLine quality)
                                           (log (DimensionsLine width height newWidth newHeight)
                                             (log (SizeLine originalSize newSize)
                                               (log (Converted inputPath outputPath) w2)))))))))"

text \<open>\<open>resizeImage\<close>: the \<open>catch\<close> logs the error and throws it again.\<close>

definition resizeImage :: "env \<Rightarrow> string \<Rightarrow> string \<Rightarrow> world \<Rightarrow> (error + unit) \<times> world" where
  "resizeImage env inputPath outputPath w =
     (case resizeImage_try env inputPath outputPath w of
        (Inl e, w1) \<Rightarrow> (Inl e, log (ErrorProcessing inputPath e) w1)
      | (Inr u, w1) \<Rightarrow> (Inr u, w1))"

text \<open>
  The \<open>for\<close> loop of \<open>processAllImages\<close> (lines 172 to 183) over the remaining file
  names, with the counters \<open>processedCount\<close> and \<open>errorCount\<close>.
\<close>

fun processFiles :: "env \<Rightarrow> string list \<Rightarrow> nat \<Rightarrow> nat \<Rightarrow> world \<Rightarrow> (nat \<times> nat) \<times> world" where
  "processFiles env [] processedCount errorCount w = ((processedCount, errorCount), w)"
| "processFiles env (fileName # imageFiles) processedCount errorCount w =
     (let inputPath = path_join env ORIGINAL_FOLDER fileName;
          outputPath = path_join env OUTPUT_FOLDER fileName
      in case resizeImage env inputPath outputPath w of
           (Inr u, w1) \<Rightarrow> processFiles env imageFiles (processedCount + 1) errorCount w1
         | (Inl e, w1) \<Rightarrow>
             processFiles env imageFiles processedCount (errorCount + 1)
               (log (FailedToProcess fileName e) w1))"

datatype outcome = Returned | Exit int

definition processAllImages :: "env \<Rightarrow> world \<Rightarrow> outcome \<times> world" where
  "processAllImages env w =
     (let w0 = log Starting w
      in case ensureOutputFolder env w0 of
           (Inl e, w1) \<Rightarrow> (Exit 1, log (ErrorDuringProcessing e) w1)
         | (Inr u, w1) \<Rightarrow>
             (case glob_scan env ORIGINAL_FOLDER of
                Inl e \<Rightarrow> (Returned, log OriginalFolderUnreadable w1)
              | Inr files \<Rightarrow>
                  (let imageFiles = filter (isSupportedImageFormat env) files
                   in if length imageFiles = 0 then (Returned, log NoSupportedImages w1)
                      else
                        (let w2 = log (Found (length imageFiles)) w1;
                             ((processedCount, errorCount), w3) = processFiles env imageFiles 0 0 w2;
                             w4 = log (SuccessfullyProcessed processedCount) (log Completed w3)
                         in (Returned,
                             if errorCount > 0 then log (FailedCount errorCount) w4 else w4)))))"

section \<open>Notions for the statements\<close>

text \<open>
  The update of \<open>quality\<close> in the loop (line 108), named for the statements below.
\<close>

definition decay :: "rat \<Rightarrow> rat" where
  "decay quality = max 10 (quality * 0.8)"

text \<open>
  The record of the encoder call of one iteration, and its addition to the world.
\<close>

definition attemptCall :: "env \<Rightarrow> string \<Rightarrow> int \<Rightarrow> int \<Rightarrow> rat \<Rightarrow> encode_call" where
  "attemptCall env outputPath newWidth newHeight quality =
     \<lparr>call_quality = quality, call_width = newWidth, call_height = newHeight,
      call_options = formatOptions (getExtension env outputPath) quality\<rparr>"

definition addCall :: "encode_call \<Rightarrow> world \<Rightarrow> world" where
  "addCall c w = w\<lparr>encodes := encodes w @ [c]\<rparr>"

text \<open>
  The encoder calls made between two worlds.
\<close>

definition newCalls :: "world \<Rightarrow> world \<Rightarrow> encode_call list" where
  "newCalls w w' = drop (length (encodes w)) (encodes w')"

text \<open>
  The world before anything has happened.
\<close>

definition emptyWorld :: world where
  "emptyWorld = \<lparr>console = [], encodes = [], writes = []\<rparr>"

text \<open>
  Whether \<open>resizeImage\<close> throws for a file of the batch. The result of
  \<open>resizeImage\<close> does not depend on the world it starts in (lemma
  \<open>resizeImage_fst_world\<close> below), so the empty world stands for any.
\<close>

definition resizeFails :: "env \<Rightarrow> string \<Rightarrow> bool" where
  "resizeFails env fileName \<longleftrightarrow>
     isl (fst (resizeImage env (path_join env ORIGINAL_FOLDER fileName)
                 (path_join env OUTPUT_FOLDER fileName) emptyWorld))"

text \<open>
  The invariant of the loop, for a run of \<open>n\<close> iterations entered with
  \<open>quality = q\<close> and \<open>attempts = a\<close>: iteration \<open>j\<close> encodes at \<open>(decay ^^ j) q\<close>, every
  iteration but the last exceeded the budget at a quality above 10, and the result is
  that of the last encoder call.
\<close>

definition loopRun ::
  "env \<Rightarrow> string \<Rightarrow> string \<Rightarrow> int \<Rightarrow> int \<Rightarrow> rat \<Rightarrow> nat \<Rightarrow> world
     \<Rightarrow> (error + Buffer \<times> rat \<times> nat) \<times> world \<Rightarrow> nat \<Rightarrow> bool" where
  "loopRun env ip op nw nh q a w res n \<longleftrightarrow>
     1 \<le> n \<and> a + n \<le> max maxAttempts (a + 1) \<and>
     encodes (snd res) = encodes w @ map (\<lambda>j. attemptCall env op nw nh ((decay ^^ j) q)) [0..<n] \<and>
     writes (snd res) = writes w \<and>
     (\<forall>j. Suc j < n \<longrightarrow>
        10 < (decay ^^ j) q \<and> 10 < (decay ^^ Suc j) q \<and>
        (\<exists>buf. sharp_toBuffer env ip nw nh (formatOptions (getExtension env op) ((decay ^^ j) q)) = Inr buf
              \<and> MAX_FILE_SIZE < length buf)) \<and>
     (case fst res of
        Inl e \<Rightarrow>
          sharp_toBuffer env ip nw nh (formatOptions (getExtension env op) ((decay ^^ (n - 1)) q)) = Inl e
      | Inr (buf, q', a') \<Rightarrow>
          sharp_toBuffer env ip nw nh (formatOptions (getExtension env op) ((decay ^^ (n - 1)) q)) = Inr buf \<and>
          a' = a + n \<and>
          q' = (if MAX_FILE_SIZE < length buf \<and> 10 < (decay ^^ (n - 1)) q
                then (decay ^^ n) q else (decay ^^ (n - 1)) q) \<and>
          \<not> (MAX_FILE_SIZE < length buf \<and> a' < maxAttempts \<and> 10 < q'))"

section \<open>A test environment\<close>

text \<open>
  Stand-ins for the collaborators, for evaluating the model on concrete inputs. The
  encoder rejects a format call whose quality is not an integer, as the \<open>jpeg\<close>, \<open>png\<close>
  and \<open>webp\<close> calls of the image library do. Otherwise it returns 600000 bytes at every
  setting for \<open>original/noise.jpg\<close> and for any image without a format call; a JPEG is
  within the budget once the quality is at most 80, a PNG from compression level 2 on,
  and a WebP always. The metadata of \<open>original/bad.PNG\<close> cannot be read.
\<close>

definition integerQuality :: "format_options \<Rightarrow> bool" where
  "integerQuality options =
     (case options of
        Jpeg quality mozjpeg \<Rightarrow> of_int \<lfloor>quality\<rfloor> = quality
      | Png compressionLevel quality \<Rightarrow> of_int \<lfloor>quality\<rfloor> = quality
      | Webp quality \<Rightarrow> of_int \<lfloor>quality\<rfloor> = quality
      | NoFormat \<Rightarrow> True)"

definition demo_extname :: "string \<Rightarrow> string" where
  "demo_extname p =
     (if CHR ''.'' \<in> set p then CHR ''.'' # rev (takeWhile (\<lambda>c. c \<noteq> CHR ''.'') (rev p)) else [])"

definition demo_join :: "string \<Rightarrow> string \<Rightarrow> string" where
  "demo_join d f = (if take 2 d = ''./'' then drop 2 d else d) @ ''/'' @ f"

definition demo_toBuffer :: "string \<Rightarrow> int \<Rightarrow> int \<Rightarrow> format_options \<Rightarrow> error + Buffer" where
  "demo_toBuffer inputPath newWidth newHeight options =
     (if \<not> integerQuality options then Inl (Error ''Expected integer between 1 and 100 for quality'')
      else if inputPath = ''original/noise.jpg'' then Inr (replicate 600000 0)
      else case options of
             Jpeg quality mozjpeg \<Rightarrow> Inr (replicate (if 80 < quality then 600000 else 400000) 0)
           | Png compressionLevel quality \<Rightarrow>
               Inr (replicate (if compressionLevel < 2 then 600000 else 300000) 0)
           | Webp quality \<Rightarrow> Inr (replicate 100000 0)
           | NoFormat \<Rightarrow> Inr (replicate 600000 0))"

definition demoEnv :: env where
  "demoEnv =
     \<lparr>path_extname = demo_extname,
      path_join = demo_join,
      glob_scan = (\<lambda>d. Inr [''a.jpg'', ''notes.txt'', ''bad.PNG'', ''c.webp'']),
      sharp_metadata = (\<lambda>p. if p = ''original/bad.PNG'' then Inl (Error ''unsupported image format'')
                              else Inr (Some 2000, Some 1000)),
      sharp_toBuffer = demo_toBuffer,
      storage_ensureDestination = (\<lambda>d. Inr ()),
      storage_write = (\<lambda>p b. Inr ()),
      storage_getSize = (\<lambda>p. Inr 2000000)\<rparr>"

section \<open>The dimension plan\<close>

lemma Math_round_bounds:
  "of_int (Math_round x) \<le> x + 1 / 2" "x - 1 / 2 < of_int (Math_round x)"
  unfolding Math_round_def by linarith+

lemma Math_round_le_int:
  assumes "x \<le> of_int k"
  shows "Math_round x \<le> k"
proof -
  have "x + 1 / 2 < of_int (k + 1)" using assms by simp
  then have "\<lfloor>x + 1 / 2\<rfloor> < k + 1" by (simp only: floor_less_iff)
  then show ?thesis by (simp add: Math_round_def)
qed

lemma scaled_le:
  fixes a m b :: int
  assumes "0 < a" "a \<le> b" "0 < m" "m < b"
  shows "(of_int (a * m) / of_int b :: rat) \<le> of_int a"
    and "(of_int (a * m) / of_int b :: rat) \<le> of_int m"
proof -
  have b: "(0::rat) < of_int b" using assms by simp
  have "a * m \<le> a * b" using assms by (simp add: mult_left_mono)
  then have "(of_int (a * m) :: rat) \<le> of_int a * of_int b"
    by (metis of_int_le_iff of_int_mult)
  then show "(of_int (a * m) / of_int b :: rat) \<le> of_int a"
    using b by (simp add: pos_divide_le_eq)
  have "a * m \<le> b * m" using assms by (simp add: mult_right_mono)
  then have "(of_int (a * m) :: rat) \<le> of_int m * of_int b"
    by (metis of_int_le_iff of_int_mult mult.commute)
  then show "(of_int (a * m) / of_int b :: rat) \<le> of_int m"
    using b by (simp add: pos_divide_le_eq)
qed

lemma Math_round_near:
  "\<bar>of_int (Math_round x) - x\<bar> \<le> 1 / 2"
  using Math_round_bounds [of x] by linarith

lemma newDimensions_wide:
  assumes "height < width" "maxDimension < width"
  shows "newDimensions maxDimension width height =
           (maxDimension, Math_round (of_int (height * maxDimension) / of_int width))"
  using assms by (simp add: newDimensions_def)

lemma newDimensions_tall:
  assumes "width \<le> height" "maxDimension < height"
  shows "newDimensions maxDimension width height =
           (Math_round (of_int (width * maxDimension) / of_int height), maxDimension)"
  using assms by (simp add: newDimensions_def)

lemma newDimensions_unchanged:
  assumes "max width height \<le> maxDimension"
  shows "newDimensions maxDimension width height = (width, height)"
  using assms by (simp add: newDimensions_def)

text \<open>
  C1. For positive width, height and bound, the planned size exceeds the input on
  neither axis. If the longest side is within the bound the size is unchanged.
  Otherwise the longest planned side is the bound, and the other side is
  \<open>Math.round(otherSide * bound / constrainedSide)\<close>, at most half a pixel from the
  exact ratio.
\<close>

theorem newDimensions_plan:
  assumes "0 < width" and "0 < height" and "0 < maxDimension"
    and "newDimensions maxDimension width height = (targetWidth, targetHeight)"
  shows "targetWidth \<le> width \<and> targetHeight \<le> height \<and>
         (max width height \<le> maxDimension \<longrightarrow> targetWidth = width \<and> targetHeight = height) \<and>
         (maxDimension < max width height \<longrightarrow>
            max targetWidth targetHeight = maxDimension \<and>
            (height < width \<longrightarrow>
               targetWidth = maxDimension \<and>
               targetHeight = Math_round (of_int (height * maxDimension) / of_int width) \<and>
               \<bar>of_int targetHeight - of_int (height * maxDimension) / of_int width\<bar>
                  \<le> (1 / 2 :: rat)) \<and>
            (width \<le> height \<longrightarrow>
               targetHeight = maxDimension \<and>
               targetWidth = Math_round (of_int (width * maxDimension) / of_int height) \<and>
               \<bar>of_int targetWidth - of_int (width * maxDimension) / of_int height\<bar>
                  \<le> (1 / 2 :: rat)))"
proof (cases "max width height \<le> maxDimension")
  case True
  with assms(4) have "targetWidth = width" "targetHeight = height"
    by (simp_all add: newDimensions_unchanged)
  with True show ?thesis by auto
next
  case over: False
  show ?thesis
  proof (cases "height < width")
    case True
    with over have big: "maxDimension < width" by simp
    let ?x = "of_int (height * maxDimension) / of_int width :: rat"
    from assms(4) newDimensions_wide [OF True big]
    have tw: "targetWidth = maxDimension" and th: "targetHeight = Math_round ?x"
      by auto
    have "height \<le> width" using True by simp
    from scaled_le [OF assms(2) this assms(3) big]
    have "Math_round ?x \<le> height" "Math_round ?x \<le> maxDimension"
      by (simp_all add: Math_round_le_int)
    with tw th True big over Math_round_near [of ?x] show ?thesis
      by simp
  next
    case False
    then have le: "width \<le> height" by simp
    with over have big: "maxDimension < height" by simp
    let ?x = "of_int (width * maxDimension) / of_int height :: rat"
    from assms(4) newDimensions_tall [OF le big]
    have th: "targetHeight = maxDimension" and tw: "targetWidth = Math_round ?x"
      by auto
    from scaled_le [OF assms(1) le assms(3) big]
    have "Math_round ?x \<le> width" "Math_round ?x \<le> maxDimension"
      by (simp_all add: Math_round_le_int)
    with tw th le big over False Math_round_near [of ?x] show ?thesis
      by simp
  qed
qed

lemma floor_rat_numeral_div:
  "\<lfloor>numeral a / numeral b :: rat\<rfloor> = numeral a div numeral b"
  using floor_divide_of_int_eq [of "numeral a" "numeral b", where ?'a = rat] by simp

lemma newDimensions_2000_1000: "newDimensions MAX_DIMENSION 2000 1000 = (1024, 512)"
  by (simp add: newDimensions_def MAX_DIMENSION_def Math_round_def floor_rat_numeral_div)

lemma newDimensions_1000_2000: "newDimensions MAX_DIMENSION 1000 2000 = (512, 1024)"
  by (simp add: newDimensions_def MAX_DIMENSION_def Math_round_def floor_rat_numeral_div)

lemma newDimensions_800_600: "newDimensions MAX_DIMENSION 800 600 = (800, 600)"
  by (simp add: newDimensions_def MAX_DIMENSION_def)

theorem newDimensions_plan_witness:
  "newDimensions 1024 2000 1000 = (1024, 512) \<and> newDimensions 1024 800 600 = (800, 600) \<and>
   (1024::int) \<le> 2000 \<and> (512::int) \<le> 1000 \<and> max (1024::int) 512 = 1024 \<and>
   (512::int) = Math_round (of_int (1000 * 1024) / of_int 2000)"
proof -
  have a: "newDimensions 1024 2000 1000 = (1024, 512)"
    using newDimensions_2000_1000 by (simp add: MAX_DIMENSION_def)
  have b: "newDimensions 1024 800 600 = (800, 600)"
    using newDimensions_800_600 by (simp add: MAX_DIMENSION_def)
  from newDimensions_plan [OF _ _ _ a] newDimensions_plan [OF _ _ _ b] a b
  show ?thesis by simp
qed

section \<open>The loop, iteration by iteration\<close>

declare encodeLoop.simps [simp del]

lemma encodeLoop_cases [case_names Error Stop Exhausted Retry]:
  fixes env ip op nw nh q a w
  assumes
    "\<And>e. \<lbrakk>sharp_toBuffer env ip nw nh (formatOptions (getExtension env op) q) = Inl e;
       encodeLoop env ip op nw nh q a w = (Inl e, addCall (attemptCall env op nw nh q) w)\<rbrakk> \<Longrightarrow> P"
    "\<And>buf. \<lbrakk>sharp_toBuffer env ip nw nh (formatOptions (getExtension env op) q) = Inr buf;
       \<not> (length buf > MAX_FILE_SIZE \<and> q > 10);
       encodeLoop env ip op nw nh q a w
         = (Inr (buf, q, a + 1), addCall (attemptCall env op nw nh q) w)\<rbrakk> \<Longrightarrow> P"
    "\<And>buf. \<lbrakk>sharp_toBuffer env ip nw nh (formatOptions (getExtension env op) q) = Inr buf;
       length buf > MAX_FILE_SIZE; q > 10; \<not> (a + 1 < maxAttempts \<and> decay q > 10);
       encodeLoop env ip op nw nh q a w
         = (Inr (buf, decay q, a + 1),
            log (AdjustingQuality (decay q) (a + 1)) (addCall (attemptCall env op nw nh q) w))\<rbrakk> \<Longrightarrow> P"
    "\<And>buf. \<lbrakk>sharp_toBuffer env ip nw nh (formatOptions (getExtension env op) q) = Inr buf;
       length buf > MAX_FILE_SIZE; q > 10; a + 1 < maxAttempts; decay q > 10;
       encodeLoop env ip op nw nh q a w
         = encodeLoop env ip op nw nh (decay q) (a + 1)
            (log (AdjustingQuality (decay q) (a + 1)) (addCall (attemptCall env op nw nh q) w))\<rbrakk> \<Longrightarrow> P"
  shows P
proof (cases "sharp_toBuffer env ip nw nh (formatOptions (getExtension env op) q)")
  case (Inl e)
  then have "encodeLoop env ip op nw nh q a w = (Inl e, addCall (attemptCall env op nw nh q) w)"
    by (subst encodeLoop.simps) (auto simp add: Let_def addCall_def attemptCall_def)
  with Inl assms(1) show P by blast
next
  case (Inr buf)
  show P
  proof (cases "length buf > MAX_FILE_SIZE \<and> q > 10")
    case False
    with Inr have "encodeLoop env ip op nw nh q a w
         = (Inr (buf, q, a + 1), addCall (attemptCall env op nw nh q) w)"
      by (subst encodeLoop.simps) (auto simp add: Let_def addCall_def attemptCall_def)
    with Inr False assms(2) show P by blast
  next
    case over: True
    show P
    proof (cases "a + 1 < maxAttempts \<and> decay q > 10")
      case False
      with Inr over have "encodeLoop env ip op nw nh q a w
         = (Inr (buf, decay q, a + 1),
            log (AdjustingQuality (decay q) (a + 1)) (addCall (attemptCall env op nw nh q) w))"
        by (subst encodeLoop.simps) (auto simp add: Let_def addCall_def attemptCall_def decay_def)
      with Inr over False assms(3) show P by blast
    next
      case True
      with Inr over have "encodeLoop env ip op nw nh q a w
         = encodeLoop env ip op nw nh (decay q) (a + 1)
            (log (AdjustingQuality (decay q) (a + 1)) (addCall (attemptCall env op nw nh q) w))"
        by (subst encodeLoop.simps) (auto simp add: Let_def addCall_def attemptCall_def decay_def)
      with Inr over True assms(4) show P by blast
    qed
  qed
qed

lemma encodeLoop_first_within:
  assumes "sharp_toBuffer env ip nw nh (formatOptions (getExtension env op) q) = Inr buf"
    and "length buf \<le> MAX_FILE_SIZE"
  shows "encodeLoop env ip op nw nh q a w = (Inr (buf, q, a + 1), addCall (attemptCall env op nw nh q) w)"
  using assms
  by (cases rule: encodeLoop_cases [where env = env and ip = ip and op = op and nw = nw
        and nh = nh and q = q and a = a and w = w]) auto

lemma loopRun_first:
  assumes "encodes (snd res) = encodes w @ [attemptCall env op nw nh q]"
    and "writes (snd res) = writes w"
    and "case fst res of
        Inl e \<Rightarrow> sharp_toBuffer env ip nw nh (formatOptions (getExtension env op) q) = Inl e
      | Inr (buf, q', a') \<Rightarrow>
          sharp_toBuffer env ip nw nh (formatOptions (getExtension env op) q) = Inr buf \<and>
          a' = a + 1 \<and>
          q' = (if MAX_FILE_SIZE < length buf \<and> 10 < q then decay q else q) \<and>
          \<not> (MAX_FILE_SIZE < length buf \<and> a' < maxAttempts \<and> 10 < q')"
  shows "loopRun env ip op nw nh q a w res 1"
  using assms unfolding loopRun_def by (auto split: sum.splits prod.splits)

lemma loopRun_next:
  assumes run: "loopRun env ip op nw nh (decay q) (a + 1)
                  (log l (addCall (attemptCall env op nw nh q) w)) res n"
    and buf: "sharp_toBuffer env ip nw nh (formatOptions (getExtension env op) q) = Inr buf"
             "MAX_FILE_SIZE < length buf"
    and q: "10 < q" and a: "a + 1 < maxAttempts" and q1: "10 < decay q"
  shows "loopRun env ip op nw nh q a w res (Suc n)"
proof -
  from run have n: "1 \<le> n" by (simp add: loopRun_def)
  then have n1: "Suc n - 1 = Suc (n - 1)" by simp
  have shift: "(decay ^^ j) (decay q) = (decay ^^ Suc j) q" for j
    by (simp add: funpow_swap1)
  have enc: "encodes (snd res) = encodes w @ map (\<lambda>j. attemptCall env op nw nh ((decay ^^ j) q)) [0..<Suc n]"
  proof -
    from run have "encodes (snd res) = (encodes w @ [attemptCall env op nw nh q]) @
         map (\<lambda>j. attemptCall env op nw nh ((decay ^^ j) (decay q))) [0..<n]"
      by (simp add: loopRun_def log_def addCall_def)
    also have "\<dots> = encodes w @ map (\<lambda>j. attemptCall env op nw nh ((decay ^^ j) q)) [0..<Suc n]"
      unfolding shift by (simp add: map_upt_Suc del: upt_Suc funpow.simps)
    finally show ?thesis .
  qed
  have wr: "writes (snd res) = writes w"
    using run by (simp add: loopRun_def log_def addCall_def)
  have bound: "a + Suc n \<le> max maxAttempts (a + 1)"
    using run a by (simp add: loopRun_def)
  have over: "10 < (decay ^^ j) q \<and> 10 < (decay ^^ Suc j) q \<and>
        (\<exists>buf. sharp_toBuffer env ip nw nh (formatOptions (getExtension env op) ((decay ^^ j) q)) = Inr buf
              \<and> MAX_FILE_SIZE < length buf)" if "Suc j < Suc n" for j
  proof (cases j)
    case 0
    with buf q q1 show ?thesis by simp
  next
    case (Suc i)
    with that have "Suc i < n" by simp
    with run have "10 < (decay ^^ i) (decay q) \<and> 10 < (decay ^^ Suc i) (decay q) \<and>
        (\<exists>buf. sharp_toBuffer env ip nw nh (formatOptions (getExtension env op) ((decay ^^ i) (decay q))) = Inr buf
              \<and> MAX_FILE_SIZE < length buf)"
      unfolding loopRun_def by blast
    then show ?thesis unfolding shift Suc .
  qed
  have res: "case fst res of
        Inl e \<Rightarrow>
          sharp_toBuffer env ip nw nh (formatOptions (getExtension env op) ((decay ^^ (Suc n - 1)) q)) = Inl e
      | Inr (buf, q', a') \<Rightarrow>
          sharp_toBuffer env ip nw nh (formatOptions (getExtension env op) ((decay ^^ (Suc n - 1)) q)) = Inr buf \<and>
          a' = a + Suc n \<and>
          q' = (if MAX_FILE_SIZE < length buf \<and> 10 < (decay ^^ (Suc n - 1)) q
                then (decay ^^ Suc n) q else (decay ^^ (Suc n - 1)) q) \<and>
          \<not> (MAX_FILE_SIZE < length buf \<and> a' < maxAttempts \<and> 10 < q')"
  proof -
    from n obtain m where m: "n = Suc m" by (cases n) auto
    from run show ?thesis
      unfolding loopRun_def m
      by (auto simp add: funpow_swap1 split: sum.splits prod.splits)
  qed
  have n': "1 \<le> Suc n" by simp
  from n' bound enc wr over res show ?thesis
    unfolding loopRun_def by blast
qed

lemma encodeLoop_run:
  "\<exists>n. loopRun env ip op nw nh q a w (encodeLoop env ip op nw nh q a w) n"
proof (induction "maxAttempts - a" arbitrary: q a w rule: less_induct)
  case less
  show ?case
  proof (cases rule: encodeLoop_cases [where env = env and ip = ip and op = op and nw = nw
        and nh = nh and q = q and a = a and w = w])
    case (Error e)
    then have "loopRun env ip op nw nh q a w (encodeLoop env ip op nw nh q a w) 1"
      by (intro loopRun_first) (simp_all add: addCall_def)
    then show ?thesis ..
  next
    case (Stop buf)
    then have "loopRun env ip op nw nh q a w (encodeLoop env ip op nw nh q a w) 1"
      by (intro loopRun_first) (auto simp add: addCall_def)
    then show ?thesis ..
  next
    case (Exhausted buf)
    then have "loopRun env ip op nw nh q a w (encodeLoop env ip op nw nh q a w) 1"
      by (intro loopRun_first) (auto simp add: addCall_def log_def)
    then show ?thesis ..
  next
    case (Retry buf)
    let ?w = "log (AdjustingQuality (decay q) (a + 1)) (addCall (attemptCall env op nw nh q) w)"
    from Retry have "maxAttempts - (a + 1) < maxAttempts - a" by simp
    from less [OF this] obtain n
      where "loopRun env ip op nw nh (decay q) (a + 1) ?w (encodeLoop env ip op nw nh (decay q) (a + 1) ?w) n"
      by blast
    from loopRun_next [OF this Retry(1-5)] Retry(6)
    have "loopRun env ip op nw nh q a w (encodeLoop env ip op nw nh q a w) (Suc n)" by simp
    then show ?thesis ..
  qed
qed

lemma loopRun_newCalls:
  assumes "loopRun env ip op nw nh q a w res n"
  shows "newCalls w (snd res) = map (\<lambda>j. attemptCall env op nw nh ((decay ^^ j) q)) [0..<n]"
    and "length (newCalls w (snd res)) = n"
  using assms by (simp_all add: loopRun_def newCalls_def)

lemma loopRun_nth:
  assumes run: "loopRun env ip op nw nh q a w res n" and "j < n"
  shows "newCalls w (snd res) ! j = attemptCall env op nw nh ((decay ^^ j) q)"
  using assms by (simp add: loopRun_newCalls(1))

lemma loopRun_from_0:
  assumes "loopRun env ip op nw nh q 0 w res n"
  shows "1 \<le> n" "n \<le> 10"
  using assms by (simp_all add: loopRun_def maxAttempts_def)

lemma attemptCall_sel:
  "call_quality (attemptCall env op nw nh q) = q"
  "call_options (attemptCall env op nw nh q) = formatOptions (getExtension env op) q"
  "call_width (attemptCall env op nw nh q) = nw"
  "call_height (attemptCall env op nw nh q) = nh"
  by (simp_all add: attemptCall_def)

lemma newCalls_addCall: "newCalls w (addCall c w) = [c]"
  by (simp add: newCalls_def addCall_def)

lemma newCalls_emptyWorld: "newCalls emptyWorld w = encodes w"
  by (simp add: newCalls_def emptyWorld_def)

lemma encodeLoop_fst_unfold:
  "fst (encodeLoop env ip op nw nh q a w) =
     (case sharp_toBuffer env ip nw nh (formatOptions (getExtension env op) q) of
        Inl e \<Rightarrow> Inl e
      | Inr buf \<Rightarrow>
          if MAX_FILE_SIZE < length buf \<and> 10 < q
          then if a + 1 < maxAttempts \<and> 10 < decay q
               then fst (encodeLoop env ip op nw nh (decay q) (a + 1)
                      (log (AdjustingQuality (decay q) (a + 1)) (addCall (attemptCall env op nw nh q) w)))
               else Inr (buf, decay q, a + 1)
          else Inr (buf, q, a + 1))"
  by (cases rule: encodeLoop_cases [where env = env and ip = ip and op = op and nw = nw
        and nh = nh and q = q and a = a and w = w]) auto

lemma encodeLoop_fst_world:
  "fst (encodeLoop env ip op nw nh q a w) = fst (encodeLoop env ip op nw nh q a w')"
proof (induction "maxAttempts - a" arbitrary: q a w w' rule: less_induct)
  case less
  have IH: "fst (encodeLoop env ip op nw nh q' (Suc a) v) = fst (encodeLoop env ip op nw nh q' (Suc a) v')"
    if "Suc a < maxAttempts" for q' v v'
    using that by (intro less) simp
  show ?case
    by (subst encodeLoop_fst_unfold, subst (2) encodeLoop_fst_unfold)
       (auto split: sum.splits intro: IH)
qed

lemma encodeLoop_console:
  "\<exists>ls. console (snd (encodeLoop env ip op nw nh q a w)) = console w @ ls"
proof (induction "maxAttempts - a" arbitrary: q a w rule: less_induct)
  case less
  show ?case
  proof (cases rule: encodeLoop_cases [where env = env and ip = ip and op = op and nw = nw
        and nh = nh and q = q and a = a and w = w])
    case (Error e)
    then show ?thesis by (simp add: addCall_def)
  next
    case (Stop buf)
    then show ?thesis by (simp add: addCall_def)
  next
    case (Exhausted buf)
    then show ?thesis by (simp add: addCall_def log_def)
  next
    case (Retry buf)
    let ?w = "log (AdjustingQuality (decay q) (a + 1)) (addCall (attemptCall env op nw nh q) w)"
    from Retry have "maxAttempts - (a + 1) < maxAttempts - a" by simp
    from less [OF this] obtain ls
      where "console (snd (encodeLoop env ip op nw nh (decay q) (a + 1) ?w)) = console ?w @ ls"
      by blast
    with Retry(6) show ?thesis by (simp add: addCall_def log_def)
  qed
qed

section \<open>The decay of the quality\<close>

lemma decay_le:
  assumes "10 < x" shows "decay x \<le> x"
  using assms by (simp add: decay_def)

lemma decay_eq:
  assumes "10 \<le> x * 0.8"
  shows "decay x = x * 0.8"
  using assms unfolding decay_def by (rule max_absorb2)

lemma pow_08_ge:
  assumes "j \<le> 10"
  shows "(10::rat) < 95 * 0.8 ^ j"
proof -
  have "(0.8::rat) ^ 10 \<le> 0.8 ^ j"
    using assms by (intro power_decreasing) simp_all
  then have "(95::rat) * 0.8 ^ 10 \<le> 95 * 0.8 ^ j"
    by (intro mult_left_mono) simp_all
  moreover have "(10::rat) < 95 * 0.8 ^ 10" by (simp add: power_divide)
  ultimately show ?thesis by (rule less_le_trans [rotated])
qed

lemma decay_funpow_95:
  assumes "j \<le> 10"
  shows "(decay ^^ j) 95 = 95 * 0.8 ^ j"
  using assms
proof (induction j)
  case 0
  then show ?case by simp
next
  case (Suc j)
  then have IH: "(decay ^^ j) 95 = 95 * 0.8 ^ j" by simp
  have "(10::rat) < 95 * 0.8 ^ Suc j" using Suc.prems by (rule pow_08_ge)
  then have "(10::rat) \<le> (95 * 0.8 ^ j) * 0.8" by (simp add: mult.assoc)
  then have "decay (95 * 0.8 ^ j) = (95 * 0.8 ^ j) * 0.8" by (rule decay_eq)
  also have "\<dots> = 95 * 0.8 ^ Suc j" by simp
  finally show ?case using IH by simp
qed

lemma decay_funpow_95_gt:
  assumes "j \<le> 10"
  shows "10 < (decay ^^ j) 95"
  using assms by (simp only: decay_funpow_95 pow_08_ge)


lemma antimono_upto:
  fixes f :: "nat \<Rightarrow> rat"
  assumes step: "\<And>j. Suc j < n \<Longrightarrow> f (Suc j) \<le> f j"
    and "i \<le> k" "k < n"
  shows "f k \<le> f i"
  using assms(2,3)
proof (induction k)
  case 0
  then show ?case by simp
next
  case (Suc k)
  show ?case
  proof (cases "i = Suc k")
    case True
    then show ?thesis by simp
  next
    case False
    with Suc.prems have "i \<le> k" "k < n" by simp_all
    then have "f k \<le> f i" by (rule Suc.IH)
    moreover have "f (Suc k) \<le> f k" using Suc.prems by (intro step)
    ultimately show ?thesis by simp
  qed
qed

lemma loopRun_sorted:
  assumes run: "loopRun env ip op nw nh q a w res n"
  shows "sorted_wrt (\<ge>) (map call_quality (newCalls w (snd res)))"
proof -
  have step: "(decay ^^ Suc j) q \<le> (decay ^^ j) q" if "Suc j < n" for j
  proof -
    from run that have "10 < (decay ^^ j) q" unfolding loopRun_def by blast
    then show ?thesis by (simp add: decay_le)
  qed
  have "(decay ^^ k) q \<le> (decay ^^ i) q" if "i < k" "k < n" for i k
    using antimono_upto [of n "\<lambda>j. (decay ^^ j) q" i k] step that by simp
  then show ?thesis
    unfolding loopRun_newCalls(1) [OF run]
    by (simp add: sorted_wrt_iff_nth_less attemptCall_def o_def)
qed

lemma encodeLoop_all_over:
  assumes all: "\<And>j. j < 10 \<Longrightarrow>
      \<exists>buf. sharp_toBuffer env ip nw nh (formatOptions (getExtension env op) ((decay ^^ j) 95)) = Inr buf
            \<and> MAX_FILE_SIZE < length buf"
  shows "\<exists>buf w'. encodeLoop env ip op nw nh 95 0 w = (Inr (buf, 95 * 0.8 ^ 10, 10), w') \<and>
           sharp_toBuffer env ip nw nh (formatOptions (getExtension env op) (95 * 0.8 ^ 9)) = Inr buf \<and>
           MAX_FILE_SIZE < length buf \<and> length (newCalls w w') = 10"
proof -
  let ?res = "encodeLoop env ip op nw nh 95 0 w"
  obtain n where run: "loopRun env ip op nw nh 95 0 w ?res n"
    using encodeLoop_run by blast
  then have n: "1 \<le> n" "n \<le> 10" by (rule loopRun_from_0)+
  let ?last = "formatOptions (getExtension env op) ((decay ^^ (n - 1)) 95)"
  from n have "n - 1 < 10" by simp
  from all [OF this] obtain b where b: "sharp_toBuffer env ip nw nh ?last = Inr b" "MAX_FILE_SIZE < length b"
    by blast
  have last_gt: "10 < (decay ^^ (n - 1)) 95" using n by (intro decay_funpow_95_gt) simp
  have fin_gt: "10 < (decay ^^ n) 95" using n by (intro decay_funpow_95_gt)
  from run b obtain buf q' a' where res: "fst ?res = Inr (buf, q', a')"
    unfolding loopRun_def by (cases "fst ?res") auto
  with run b last_gt have buf: "buf = b" and a': "a' = n" and q': "q' = (decay ^^ n) 95"
    and stop: "\<not> (MAX_FILE_SIZE < length b \<and> a' < maxAttempts \<and> 10 < q')"
    unfolding loopRun_def by auto
  from stop b fin_gt q' a' n have n10: "n = 10" by (simp add: maxAttempts_def)
  have "?res = (Inr (b, 95 * 0.8 ^ 10, 10), snd ?res)"
    using res buf a' q' n10 decay_funpow_95 [of 10] by (simp add: prod_eq_iff)
  moreover have "sharp_toBuffer env ip nw nh (formatOptions (getExtension env op) (95 * 0.8 ^ 9)) = Inr b"
    using b(1) n10 decay_funpow_95 [of 9] by simp
  moreover have "length (newCalls w (snd ?res)) = 10"
    using loopRun_newCalls(2) [OF run] n10 by simp
  ultimately show ?thesis using b(2) by blast
qed

lemma encodeLoop_retry:
  assumes "sharp_toBuffer env ip nw nh (formatOptions (getExtension env op) q) = Inr buf"
    and "MAX_FILE_SIZE < length buf" and "10 < q" and "a + 1 < maxAttempts" and "10 < decay q"
  shows "encodeLoop env ip op nw nh q a w
           = encodeLoop env ip op nw nh (decay q) (a + 1)
               (log (AdjustingQuality (decay q) (a + 1)) (addCall (attemptCall env op nw nh q) w))"
  using assms
  by (cases rule: encodeLoop_cases [where env = env and ip = ip and op = op and nw = nw
        and nh = nh and q = q and a = a and w = w]) auto

lemma encodeLoop_throws:
  assumes "sharp_toBuffer env ip nw nh (formatOptions (getExtension env op) q) = Inl e"
  shows "encodeLoop env ip op nw nh q a w = (Inl e, addCall (attemptCall env op nw nh q) w)"
  using assms
  by (cases rule: encodeLoop_cases [where env = env and ip = ip and op = op and nw = nw
        and nh = nh and q = q and a = a and w = w]) auto


lemma formatOptions_NoFormat:
  assumes "ext \<notin> {''.jpg'', ''.jpeg'', ''.png'', ''.webp''}"
  shows "formatOptions ext q = NoFormat"
  using assms by (simp add: formatOptions_def)

section \<open>resizeImage and the batch\<close>

lemma resizeImage_try_dims:
  assumes "sharp_metadata env ip = Inr (Some width, Some height)" "width \<noteq> 0" "height \<noteq> 0"
    and "newDimensions MAX_DIMENSION width height = (nw, nh)"
    and "encodeLoop env ip op nw nh 95 0 (log (Processing ip) w) = (r, w1)"
  shows "resizeImage_try env ip op w =
    (case r of
       Inl e \<Rightarrow> (Inl e, w1)
     | Inr (buffer, quality, attempts) \<Rightarrow>
         (case storage_write env op buffer of
            Inl e \<Rightarrow> (Inl e, w1\<lparr>writes := writes w1 @ [(op, buffer)]\<rparr>)
          | Inr u \<Rightarrow>
              (case storage_getSize env ip of
                 Inl e \<Rightarrow> (Inl e, w1\<lparr>writes := writes w1 @ [(op, buffer)]\<rparr>)
               | Inr originalSize \<Rightarrow>
                   (Inr (),
                    log (QualityLine quality)
                      (log (DimensionsLine width height nw nh)
                        (log (SizeLine originalSize (length buffer))
                          (log (Converted ip op) (w1\<lparr>writes := writes w1 @ [(op, buffer)]\<rparr>))))))))"
  using assms
  by (simp add: resizeImage_try_def getFileSize_def Let_def split: sum.splits prod.splits)

lemma resizeImage_try_nodims:
  assumes "\<not> (\<exists>width height. sharp_metadata env ip = Inr (Some width, Some height)
                \<and> width \<noteq> 0 \<and> height \<noteq> 0)"
  shows "\<exists>e. resizeImage_try env ip op w = (Inl e, log (Processing ip) w)"
  using assms
  by (auto simp add: resizeImage_try_def Let_def split: sum.splits prod.splits option.splits)

lemma resizeImage_try_fst_world:
  "fst (resizeImage_try env ip op w) = fst (resizeImage_try env ip op w')"
proof (cases "\<exists>width height. sharp_metadata env ip = Inr (Some width, Some height)
                \<and> width \<noteq> 0 \<and> height \<noteq> 0")
  case False
  then show ?thesis
    by (auto simp add: resizeImage_try_def Let_def split: sum.splits prod.splits option.splits)
next
  case True
  then obtain width height where m: "sharp_metadata env ip = Inr (Some width, Some height)"
    "width \<noteq> 0" "height \<noteq> 0" by blast
  obtain nw nh where d: "newDimensions MAX_DIMENSION width height = (nw, nh)"
    by (cases "newDimensions MAX_DIMENSION width height")
  obtain r w1 where l: "encodeLoop env ip op nw nh 95 0 (log (Processing ip) w) = (r, w1)"
    by (cases "encodeLoop env ip op nw nh 95 0 (log (Processing ip) w)")
  obtain r' w1' where l': "encodeLoop env ip op nw nh 95 0 (log (Processing ip) w') = (r', w1')"
    by (cases "encodeLoop env ip op nw nh 95 0 (log (Processing ip) w')")
  from l l' encodeLoop_fst_world [of env ip op nw nh 95 0 "log (Processing ip) w" "log (Processing ip) w'"]
  have "r = r'" by simp
  then show ?thesis
    unfolding resizeImage_try_dims [OF m d l] resizeImage_try_dims [OF m d l']
    by (simp split: sum.splits prod.splits)
qed

lemma resizeImage_fst_world:
  "fst (resizeImage env ip op w) = fst (resizeImage env ip op w')"
proof -
  have "fst (resizeImage env ip op v) = fst (resizeImage_try env ip op v)" for v
    by (simp add: resizeImage_def split: prod.splits sum.splits)
  then show ?thesis using resizeImage_try_fst_world by simp
qed

lemma resizeImage_isl:
  "isl (fst (resizeImage env (path_join env ORIGINAL_FOLDER f) (path_join env OUTPUT_FOLDER f) w))
     \<longleftrightarrow> resizeFails env f"
  unfolding resizeFails_def
  using resizeImage_fst_world [of env _ _ w emptyWorld] by simp

lemma resizeImage_try_console:
  "\<exists>ls. console (snd (resizeImage_try env ip op w)) = console w @ Processing ip # ls"
proof (cases "\<exists>width height. sharp_metadata env ip = Inr (Some width, Some height)
                \<and> width \<noteq> 0 \<and> height \<noteq> 0")
  case False
  from resizeImage_try_nodims [OF this, of op w] obtain e
    where "resizeImage_try env ip op w = (Inl e, log (Processing ip) w)" by blast
  then show ?thesis by (simp add: log_def)
next
  case True
  then obtain width height where m: "sharp_metadata env ip = Inr (Some width, Some height)"
    "width \<noteq> 0" "height \<noteq> 0" by blast
  obtain nw nh where d: "newDimensions MAX_DIMENSION width height = (nw, nh)"
    by (cases "newDimensions MAX_DIMENSION width height")
  obtain r w1 where l: "encodeLoop env ip op nw nh 95 0 (log (Processing ip) w) = (r, w1)"
    by (cases "encodeLoop env ip op nw nh 95 0 (log (Processing ip) w)")
  from encodeLoop_console [of env ip op nw nh 95 0 "log (Processing ip) w"] l
  obtain ls where "console w1 = console w @ Processing ip # ls"
    by (auto simp add: log_def)
  then show ?thesis
    unfolding resizeImage_try_dims [OF m d l]
    by (simp add: log_def split: sum.splits prod.splits)
qed

lemma resizeImage_console:
  "\<exists>ls. console (snd (resizeImage env ip op w)) = console w @ Processing ip # ls"
proof -
  from resizeImage_try_console obtain ls
    where "console (snd (resizeImage_try env ip op w)) = console w @ Processing ip # ls" by blast
  then show ?thesis
    by (cases "resizeImage_try env ip op w") (auto simp add: resizeImage_def log_def split: sum.splits)
qed

lemma processFiles_counts:
  "fst (processFiles env files p e w) =
     (p + length (filter (\<lambda>f. \<not> resizeFails env f) files),
      e + length (filter (resizeFails env) files))"
proof (induction files arbitrary: p e w)
  case Nil
  then show ?case by simp
next
  case (Cons f files)
  let ?r = "resizeImage env (path_join env ORIGINAL_FOLDER f) (path_join env OUTPUT_FOLDER f) w"
  show ?case
  proof (cases "fst ?r")
    case (Inl err)
    then have "resizeFails env f" using resizeImage_isl [of env f w] by simp
    with Inl show ?thesis
      by (cases ?r) (simp add: Cons.IH Let_def)
  next
    case (Inr u)
    then have "\<not> resizeFails env f" using resizeImage_isl [of env f w] by simp
    with Inr show ?thesis
      by (cases ?r) (simp add: Cons.IH Let_def)
  qed
qed

lemma processFiles_console:
  "\<exists>ls. console (snd (processFiles env files p e w)) = console w @ ls \<and>
        (\<forall>f \<in> set files. Processing (path_join env ORIGINAL_FOLDER f) \<in> set ls) \<and>
        (\<forall>f \<in> set files. resizeFails env f \<longrightarrow> (\<exists>err. FailedToProcess f err \<in> set ls))"
proof (induction files arbitrary: p e w)
  case Nil
  then show ?case by simp
next
  case (Cons f files)
  let ?ip = "path_join env ORIGINAL_FOLDER f"
  let ?r = "resizeImage env ?ip (path_join env OUTPUT_FOLDER f) w"
  obtain res w1 where r: "?r = (res, w1)" by (cases ?r)
  from resizeImage_console [of env ?ip "path_join env OUTPUT_FOLDER f" w] r
  obtain l1 where l1: "console w1 = console w @ Processing ?ip # l1" by auto
  show ?case
  proof (cases res)
    case (Inl err)
    let ?w = "log (FailedToProcess f err) w1"
    from Cons.IH [of p "e + 1" ?w] obtain ls
      where ls: "console (snd (processFiles env files p (e + 1) ?w)) = console ?w @ ls"
        "\<forall>f \<in> set files. Processing (path_join env ORIGINAL_FOLDER f) \<in> set ls"
        "\<forall>f \<in> set files. resizeFails env f \<longrightarrow> (\<exists>err. FailedToProcess f err \<in> set ls)"
      by blast
    let ?ls = "Processing ?ip # l1 @ FailedToProcess f err # ls"
    have "console (snd (processFiles env (f # files) p e w)) = console w @ ?ls"
      using r Inl ls(1) l1 by (simp add: Let_def log_def)
    moreover have "\<forall>g \<in> set (f # files). Processing (path_join env ORIGINAL_FOLDER g) \<in> set ?ls"
      using ls(2) by simp
    moreover have "\<forall>g \<in> set (f # files). resizeFails env g \<longrightarrow> (\<exists>err. FailedToProcess g err \<in> set ?ls)"
      using ls(3) by auto
    ultimately show ?thesis by blast
  next
    case (Inr u)
    with r have "\<not> resizeFails env f" using resizeImage_isl [of env f w] by simp
    from Cons.IH [of "p + 1" e w1] obtain ls
      where ls: "console (snd (processFiles env files (p + 1) e w1)) = console w1 @ ls"
        "\<forall>f \<in> set files. Processing (path_join env ORIGINAL_FOLDER f) \<in> set ls"
        "\<forall>f \<in> set files. resizeFails env f \<longrightarrow> (\<exists>err. FailedToProcess f err \<in> set ls)"
      by blast
    let ?ls = "Processing ?ip # l1 @ ls"
    have "console (snd (processFiles env (f # files) p e w)) = console w @ ?ls"
      using r Inr ls(1) l1 by (simp add: Let_def)
    moreover have "\<forall>g \<in> set (f # files). Processing (path_join env ORIGINAL_FOLDER g) \<in> set ?ls"
      using ls(2) by simp
    moreover have "\<forall>g \<in> set (f # files). resizeFails env g \<longrightarrow> (\<exists>err. FailedToProcess g err \<in> set ?ls)"
      using ls(3) \<open>\<not> resizeFails env f\<close> by auto
    ultimately show ?thesis by blast
  qed
qed

section \<open>Runs in the test environment\<close>

lemma demoEnv_sel:
  "path_extname demoEnv = demo_extname"
  "path_join demoEnv = demo_join"
  "glob_scan demoEnv d = Inr [''a.jpg'', ''notes.txt'', ''bad.PNG'', ''c.webp'']"
  "sharp_metadata demoEnv p = (if p = ''original/bad.PNG'' then Inl (Error ''unsupported image format'')
                              else Inr (Some 2000, Some 1000))"
  "sharp_toBuffer demoEnv = demo_toBuffer"
  "storage_ensureDestination demoEnv d = Inr ()"
  "storage_write demoEnv p b = Inr ()"
  "storage_getSize demoEnv p = Inr 2000000"
  by (simp_all add: demoEnv_def)

lemma demo_ext:
  "getExtension demoEnv ''output/noise.jpg'' = ''.jpg''"
  "getExtension demoEnv ''output/a.jpg'' = ''.jpg''"
  "getExtension demoEnv ''output/b.PNG'' = ''.png''"
  "getExtension demoEnv ''output/c.webp'' = ''.webp''"
  "getExtension demoEnv ''output/scan.tiff'' = ''.tiff''"
  "getExtension demoEnv ''a.jpg'' = ''.jpg''"
  "getExtension demoEnv ''notes.txt'' = ''.txt''"
  "getExtension demoEnv ''bad.PNG'' = ''.png''"
  "getExtension demoEnv ''c.webp'' = ''.webp''"
  by (simp_all add: getExtension_def demoEnv_sel demo_extname_def toLowerCase_def)

lemmas demo_eval = encodeLoop.simps demo_ext demoEnv_sel demo_toBuffer_def integerQuality_def
  MAX_FILE_SIZE_def maxAttempts_def emptyWorld_def log_def formatOptions_def Let_def
  Math_round_def floor_rat_numeral_div

lemma noise_run:
  "fst (encodeLoop demoEnv ''original/noise.jpg'' ''output/noise.jpg'' 1024 512 95 0 emptyWorld)
     = Inl (Error ''Expected integer between 1 and 100 for quality'')"
  "encodes (snd (encodeLoop demoEnv ''original/noise.jpg'' ''output/noise.jpg'' 1024 512 95 0 emptyWorld))
     = [\<lparr>call_quality = 95, call_width = 1024, call_height = 512, call_options = Jpeg 95 True\<rparr>,
        \<lparr>call_quality = 76, call_width = 1024, call_height = 512, call_options = Jpeg 76 True\<rparr>,
        \<lparr>call_quality = 304 / 5, call_width = 1024, call_height = 512,
          call_options = Jpeg (304 / 5) True\<rparr>]"
  by (simp_all add: demo_eval)

lemma noise_resize:
  "fst (resizeImage demoEnv ''original/noise.jpg'' ''output/noise.jpg'' emptyWorld)
     = Inl (Error ''Expected integer between 1 and 100 for quality'')"
  "writes (snd (resizeImage demoEnv ''original/noise.jpg'' ''output/noise.jpg'' emptyWorld)) = []"
  by (simp_all add: resizeImage_def resizeImage_try_def newDimensions_2000_1000 demo_eval)

lemma noise_buffers:
  "sharp_toBuffer demoEnv ''original/noise.jpg'' 1024 512 (Jpeg 76 True) = Inr (replicate 600000 0)"
  "sharp_toBuffer demoEnv ''original/noise.jpg'' 1024 512 (Jpeg (304 / 5) True)
     = Inl (Error ''Expected integer between 1 and 100 for quality'')"
  "set (map (sharp_toBuffer demoEnv ''original/noise.jpg'' 1024 512)
      [Jpeg 95 True, Jpeg 76 True, Jpeg 60 True, Jpeg 48 True, Jpeg 38 True, Jpeg 30 True,
       Jpeg 24 True, Jpeg 19 True, Jpeg 15 True, Jpeg 12 True, Jpeg 10 True])
     = {Inr (replicate 600000 0)}"
  by (simp_all add: demoEnv_sel demo_toBuffer_def integerQuality_def floor_rat_numeral_div)

lemma tiff_run:
  "fst (encodeLoop demoEnv ''original/scan.tiff'' ''output/scan.tiff'' 1024 512 95 0 emptyWorld)
     = Inr (replicate 600000 0, 19922944 / 1953125, 10)"
  "map call_options
     (encodes (snd (encodeLoop demoEnv ''original/scan.tiff'' ''output/scan.tiff'' 1024 512 95 0 emptyWorld)))
     = [NoFormat, NoFormat, NoFormat, NoFormat, NoFormat, NoFormat, NoFormat, NoFormat, NoFormat,
        NoFormat]"
  by (simp_all add: demo_eval)

lemma tiff_encodes:
  "encodes (snd (encodeLoop demoEnv ''original/scan.tiff'' ''output/scan.tiff'' 1024 512 95 0 emptyWorld))
     = map (\<lambda>q. \<lparr>call_quality = q, call_width = 1024, call_height = 512, call_options = NoFormat\<rparr>)
         [95, 76, 304 / 5, 1216 / 25, 4864 / 125, 19456 / 625, 77824 / 3125, 311296 / 15625,
          1245184 / 78125, 4980736 / 390625]"
  by (simp add: demo_eval)

lemma jpg_run:
  "fst (encodeLoop demoEnv ''original/a.jpg'' ''output/a.jpg'' 1024 512 95 0 emptyWorld)
     = Inr (replicate 400000 0, 76, 2)"
  "encodes (snd (encodeLoop demoEnv ''original/a.jpg'' ''output/a.jpg'' 1024 512 95 0 emptyWorld))
     = [\<lparr>call_quality = 95, call_width = 1024, call_height = 512, call_options = Jpeg 95 True\<rparr>,
        \<lparr>call_quality = 76, call_width = 1024, call_height = 512, call_options = Jpeg 76 True\<rparr>]"
  by (simp_all add: demo_eval)


lemma png_run:
  "fst (encodeLoop demoEnv ''original/b.PNG'' ''output/b.PNG'' 1024 512 95 0 emptyWorld)
     = Inr (replicate 300000 0, 76, 2)"
  "map call_options
     (encodes (snd (encodeLoop demoEnv ''original/b.PNG'' ''output/b.PNG'' 1024 512 95 0 emptyWorld)))
     = [Png 0 95, Png 2 76]"
  by (simp_all add: demo_eval)

lemma png_encodes:
  "encodes (snd (encodeLoop demoEnv ''original/b.PNG'' ''output/b.PNG'' 1024 512 95 0 emptyWorld))
     = [\<lparr>call_quality = 95, call_width = 1024, call_height = 512, call_options = Png 0 95\<rparr>,
        \<lparr>call_quality = 76, call_width = 1024, call_height = 512, call_options = Png 2 76\<rparr>]"
  by (simp add: demo_eval)

lemma not_int_304_5: "(304 / 5 :: rat) \<notin> \<int>"
proof
  assume "(304 / 5 :: rat) \<in> \<int>"
  then have "of_int \<lfloor>304 / 5 :: rat\<rfloor> = (304 / 5 :: rat)" by simp
  then show False by (simp add: floor_rat_numeral_div)
qed

lemma demo_paths:
  "path_join demoEnv ORIGINAL_FOLDER f = ''original/'' @ f"
  "path_join demoEnv OUTPUT_FOLDER f = ''output/'' @ f"
  by (simp_all add: demoEnv_sel demo_join_def ORIGINAL_FOLDER_def OUTPUT_FOLDER_def)

lemma demo_dims: "newDimensions MAX_DIMENSION 2000 1000 = (1024, 512)"
  by (rule newDimensions_2000_1000)

lemma demo_resize_a: "\<not> resizeFails demoEnv ''a.jpg''"
  unfolding resizeFails_def demo_paths
  by (simp add: resizeImage_def resizeImage_try_def demo_dims getFileSize_def demo_eval)

lemma demo_resize_bad: "resizeFails demoEnv ''bad.PNG''"
  unfolding resizeFails_def demo_paths
  by (simp add: resizeImage_def resizeImage_try_def demo_eval)

lemma demo_resize_c: "\<not> resizeFails demoEnv ''c.webp''"
  unfolding resizeFails_def demo_paths
  by (simp add: resizeImage_def resizeImage_try_def demo_dims getFileSize_def demo_eval)

lemma demo_imageFiles:
  "filter (isSupportedImageFormat demoEnv) [''a.jpg'', ''notes.txt'', ''bad.PNG'', ''c.webp'']
     = [''a.jpg'', ''bad.PNG'', ''c.webp'']"
  by (simp add: isSupportedImageFormat_def SUPPORTED_FORMATS_def demo_ext)

section \<open>The quality search\<close>

subsection \<open>The update of the quality\<close>

text \<open>
  C2 says that after an over-budget attempt the next quality is
  \<open>max(10, floor(quality * 0.8))\<close>, an integer. Line 108 computes
  \<open>max(10, quality * 0.8)\<close>: the floor is missing. On \<open>noise.jpg\<close> the second attempt
  encodes at 76 and exceeds the budget, with \<open>attempts = 2\<close>; the third encoder call is
  made at \<open>76 * 0.8 = 60.8\<close>, which is not \<open>max(10, floor(60.8)) = 60\<close> and not an integer.
\<close>

theorem quality_update_not_floored:
  "sharp_toBuffer demoEnv ''original/noise.jpg'' 1024 512 (Jpeg 76 True) = Inr (replicate 600000 0) \<and>
   MAX_FILE_SIZE < length (replicate 600000 (0 :: 8 word)) \<and>
   map call_quality (encodes (snd (encodeLoop demoEnv ''original/noise.jpg'' ''output/noise.jpg'' 1024 512 95 0 emptyWorld))) = [95, 76, 304 / 5] \<and>
   (304 / 5 :: rat) = max 10 (76 * 0.8) \<and>
   (304 / 5 :: rat) \<noteq> max 10 (of_int \<lfloor>76 * 0.8 :: rat\<rfloor>) \<and>
   (304 / 5 :: rat) \<notin> \<int>"
  using not_int_304_5
  by (simp add: noise_run noise_buffers MAX_FILE_SIZE_def floor_rat_numeral_div)

subsection \<open>Monotonicity and the bound on the attempts\<close>

text \<open>
  C3. Within one run of the loop the qualities of successive attempts never increase,
  there is at least one attempt and there are at most ten, and the returned
  \<open>attempts\<close> is their number; the returned quality is at most that of the last
  attempt. The loop is a total function: it returns on every input.
\<close>

theorem quality_nonincreasing_bounded:
  "sorted_wrt (\<ge>) (map call_quality (newCalls w (snd (encodeLoop env ip op nw nh q 0 w)))) \<and>
   1 \<le> length (newCalls w (snd (encodeLoop env ip op nw nh q 0 w))) \<and>
   length (newCalls w (snd (encodeLoop env ip op nw nh q 0 w))) \<le> 10 \<and>
   (\<forall>buf q' attempts. fst (encodeLoop env ip op nw nh q 0 w) = Inr (buf, q', attempts) \<longrightarrow>
      attempts = length (newCalls w (snd (encodeLoop env ip op nw nh q 0 w))) \<and>
      q' \<le> call_quality (last (newCalls w (snd (encodeLoop env ip op nw nh q 0 w)))))"
proof -
  let ?res = "encodeLoop env ip op nw nh q 0 w"
  obtain n where run: "loopRun env ip op nw nh q 0 w ?res n"
    using encodeLoop_run by blast
  then have n: "1 \<le> n" "n \<le> 10" by (rule loopRun_from_0)+
  have len: "length (newCalls w (snd ?res)) = n" by (rule loopRun_newCalls(2) [OF run])
  have "newCalls w (snd ?res) \<noteq> []" using len n by auto
  then have "last (newCalls w (snd ?res)) = newCalls w (snd ?res) ! (n - 1)"
    using len by (simp add: last_conv_nth)
  also have "\<dots> = attemptCall env op nw nh ((decay ^^ (n - 1)) q)"
    using n by (intro loopRun_nth [OF run]) simp
  finally have lastq: "call_quality (last (newCalls w (snd ?res))) = (decay ^^ (n - 1)) q"
    by (simp add: attemptCall_sel)
  have fin: "attempts = n \<and> q' \<le> (decay ^^ (n - 1)) q"
    if "fst ?res = Inr (buf, q', attempts)" for buf q' attempts
  proof -
    from n obtain m where m: "n = Suc m" by (cases n) auto
    from run that show ?thesis
      unfolding loopRun_def m by (auto simp add: decay_le split: if_splits)
  qed
  from fin have "\<forall>buf q' attempts. fst ?res = Inr (buf, q', attempts) \<longrightarrow>
      attempts = n \<and> q' \<le> (decay ^^ (n - 1)) q" by blast
  with loopRun_sorted [OF run] n show ?thesis unfolding len lastq by blast
qed

theorem quality_nonincreasing_bounded_witness:
  "sorted_wrt (\<ge>) (map call_quality (newCalls emptyWorld (snd (encodeLoop demoEnv ''original/a.jpg'' ''output/a.jpg'' 1024 512 95 0 emptyWorld)))) \<and>
   length (newCalls emptyWorld (snd (encodeLoop demoEnv ''original/a.jpg'' ''output/a.jpg'' 1024 512 95 0 emptyWorld))) = 2 \<and>
   fst (encodeLoop demoEnv ''original/a.jpg'' ''output/a.jpg'' 1024 512 95 0 emptyWorld) = Inr (replicate 400000 0, 76, 2) \<and>
   (76 :: rat) \<le> call_quality (last (newCalls emptyWorld (snd (encodeLoop demoEnv ''original/a.jpg'' ''output/a.jpg'' 1024 512 95 0 emptyWorld))))"
  using quality_nonincreasing_bounded [of emptyWorld demoEnv "''original/a.jpg''" "''output/a.jpg''"
      1024 512 95]
  by (simp add: newCalls_emptyWorld jpg_run)

subsection \<open>Extensions without a format call\<close>

text \<open>
  C4, as the code has it. When the extension of the output path is none of \<open>.jpg\<close>,
  \<open>.jpeg\<close>, \<open>.png\<close>, \<open>.webp\<close>, every attempt is encoded with no format call, at the
  encoder's defaults. The loop is the same as for the other formats: it stops after the
  first encode when the result is within the budget, and otherwise repeats the same
  encode until the tenth attempt.
\<close>

theorem unsupported_extension_defaults:
  assumes ext: "getExtension env op \<notin> {''.jpg'', ''.jpeg'', ''.png'', ''.webp''}"
  shows "(\<forall>c \<in> set (newCalls w (snd (encodeLoop env ip op nw nh 95 0 w))). call_options c = NoFormat) \<and>
         (\<forall>buf. sharp_toBuffer env ip nw nh NoFormat = Inr buf \<longrightarrow>
            (if length buf \<le> MAX_FILE_SIZE
             then fst (encodeLoop env ip op nw nh 95 0 w) = Inr (buf, 95, 1) \<and>
                  length (newCalls w (snd (encodeLoop env ip op nw nh 95 0 w))) = 1
             else fst (encodeLoop env ip op nw nh 95 0 w) = Inr (buf, 95 * 0.8 ^ 10, 10) \<and>
                  length (newCalls w (snd (encodeLoop env ip op nw nh 95 0 w))) = 10))"
proof -
  let ?res = "encodeLoop env ip op nw nh 95 0 w"
  have nf: "formatOptions (getExtension env op) q = NoFormat" for q
    using ext by (rule formatOptions_NoFormat)
  obtain n where run: "loopRun env ip op nw nh 95 0 w ?res n"
    using encodeLoop_run by blast
  have all: "\<forall>c \<in> set (newCalls w (snd ?res)). call_options c = NoFormat"
    unfolding loopRun_newCalls(1) [OF run] by (auto simp add: attemptCall_sel nf)
  have one: "fst ?res = Inr (buf, 95, 1) \<and> length (newCalls w (snd ?res)) = 1"
    if "sharp_toBuffer env ip nw nh NoFormat = Inr buf" "length buf \<le> MAX_FILE_SIZE" for buf
    using encodeLoop_first_within [of env ip nw nh op 95 buf 0 w] that
    by (simp add: nf newCalls_addCall)
  have ten: "fst ?res = Inr (buf, 95 * 0.8 ^ 10, 10) \<and> length (newCalls w (snd ?res)) = 10"
    if "sharp_toBuffer env ip nw nh NoFormat = Inr buf" "\<not> length buf \<le> MAX_FILE_SIZE" for buf
  proof -
    have "\<exists>b. sharp_toBuffer env ip nw nh (formatOptions (getExtension env op) ((decay ^^ j) 95)) = Inr b
            \<and> MAX_FILE_SIZE < length b" for j
      using that by (simp add: nf)
    from encodeLoop_all_over [OF this, of w] that(1) show ?thesis
      by (auto simp add: nf)
  qed
  from all one ten show ?thesis by simp
qed

theorem unsupported_extension_defaults_witness:
  "getExtension demoEnv ''output/scan.tiff'' = ''.tiff'' \<and>
   call_options (newCalls emptyWorld (snd (encodeLoop demoEnv ''original/scan.tiff''
      ''output/scan.tiff'' 1024 512 95 0 emptyWorld)) ! 9) = NoFormat \<and>
   fst (encodeLoop demoEnv ''original/scan.tiff'' ''output/scan.tiff'' 1024 512 95 0 emptyWorld)
     = Inr (replicate 600000 0, 95 * 0.8 ^ 10, 10) \<and>
   length (newCalls emptyWorld (snd (encodeLoop demoEnv ''original/scan.tiff''
      ''output/scan.tiff'' 1024 512 95 0 emptyWorld))) = 10"
proof -
  have ext: "getExtension demoEnv ''output/scan.tiff'' \<notin> {''.jpg'', ''.jpeg'', ''.png'', ''.webp''}"
    by (simp add: demo_ext)
  have buf: "sharp_toBuffer demoEnv ''original/scan.tiff'' 1024 512 NoFormat = Inr (replicate 600000 0)"
    by (simp add: demoEnv_sel demo_toBuffer_def integerQuality_def)
  let ?calls = "newCalls emptyWorld (snd (encodeLoop demoEnv ''original/scan.tiff''
      ''output/scan.tiff'' 1024 512 95 0 emptyWorld))"
  from unsupported_extension_defaults [OF ext, of emptyWorld "''original/scan.tiff''" 1024 512] buf
  have all: "\<forall>c \<in> set ?calls. call_options c = NoFormat"
    and res: "fst (encodeLoop demoEnv ''original/scan.tiff'' ''output/scan.tiff'' 1024 512 95 0 emptyWorld)
      = Inr (replicate 600000 0, 95 * 0.8 ^ 10, 10)"
    and len: "length ?calls = 10"
    by (simp_all add: MAX_FILE_SIZE_def)
  from len have "?calls ! 9 \<in> set ?calls" by (intro nth_mem) simp
  with all have "call_options (?calls ! 9) = NoFormat" by blast
  with res len show ?thesis by (simp add: demo_ext)
qed

text \<open>
  For \<open>scan.tiff\<close> the default encoding is 600000 bytes: the loop makes ten encoder
  calls, not one.
\<close>

theorem unsupported_extension_counterexample:
  "getExtension demoEnv ''output/scan.tiff'' = ''.tiff'' \<and>
   sharp_toBuffer demoEnv ''original/scan.tiff'' 1024 512 NoFormat = Inr (replicate 600000 0) \<and>
   map call_options (encodes (snd (encodeLoop demoEnv ''original/scan.tiff'' ''output/scan.tiff''
      1024 512 95 0 emptyWorld)))
     = [NoFormat, NoFormat, NoFormat, NoFormat, NoFormat, NoFormat, NoFormat, NoFormat, NoFormat,
        NoFormat] \<and>
   length (encodes (snd (encodeLoop demoEnv ''original/scan.tiff'' ''output/scan.tiff''
      1024 512 95 0 emptyWorld))) \<noteq> 1 \<and>
   fst (encodeLoop demoEnv ''original/scan.tiff'' ''output/scan.tiff'' 1024 512 95 0 emptyWorld)
     = Inr (replicate 600000 0, 19922944 / 1953125, 10)"
  by (simp add: tiff_run tiff_encodes demo_ext demoEnv_sel demo_toBuffer_def integerQuality_def)

subsection \<open>A budget that is never met\<close>

text \<open>
  With an encoder that rejects a quality that is not an integer, a run for a \<open>.jpg\<close>,
  \<open>.jpeg\<close>, \<open>.png\<close> or \<open>.webp\<close> output whose first two attempts exceed the budget ends at
  the third attempt: the encoder is called at \<open>60.8\<close> and the loop throws its error.
\<close>

lemma third_attempt_rejected:
  assumes ext: "getExtension env op \<in> {''.jpg'', ''.jpeg'', ''.png'', ''.webp''}"
    and rej: "\<And>options. \<not> integerQuality options \<Longrightarrow> \<exists>e. sharp_toBuffer env ip nw nh options = Inl e"
    and b1: "sharp_toBuffer env ip nw nh (formatOptions (getExtension env op) 95) = Inr buf1"
      "MAX_FILE_SIZE < length buf1"
    and b2: "sharp_toBuffer env ip nw nh (formatOptions (getExtension env op) 76) = Inr buf2"
      "MAX_FILE_SIZE < length buf2"
  shows "\<exists>e. fst (encodeLoop env ip op nw nh 95 0 w) = Inl e \<and>
           sharp_toBuffer env ip nw nh (formatOptions (getExtension env op) (304 / 5)) = Inl e \<and>
           map call_quality (newCalls w (snd (encodeLoop env ip op nw nh 95 0 w))) = [95, 76, 304 / 5]"
proof -
  have d1: "decay 95 = 76" and d2: "decay 76 = 304 / 5" by (simp_all add: decay_def)
  have "of_int \<lfloor>304 / 5 :: rat\<rfloor> \<noteq> (304 / 5 :: rat)"
    by (simp add: floor_rat_numeral_div)
  then have "\<not> integerQuality (formatOptions (getExtension env op) (304 / 5))"
    using ext by (auto simp add: formatOptions_def integerQuality_def simp del: of_int_floor_cancel)
  from rej [OF this] obtain e
    where e: "sharp_toBuffer env ip nw nh (formatOptions (getExtension env op) (304 / 5)) = Inl e"
    by blast
  have b2': "sharp_toBuffer env ip nw nh (formatOptions (getExtension env op) (decay 95)) = Inr buf2"
    using b2(1) by (simp only: d1)
  have e': "sharp_toBuffer env ip nw nh (formatOptions (getExtension env op) (decay (decay 95))) = Inl e"
    using e by (simp only: d1 d2)
  let ?w1 = "log (AdjustingQuality (decay 95) (0 + 1)) (addCall (attemptCall env op nw nh 95) w)"
  let ?w2 = "log (AdjustingQuality (decay (decay 95)) (0 + 1 + 1))
               (addCall (attemptCall env op nw nh (decay 95)) ?w1)"
  have "encodeLoop env ip op nw nh 95 0 w = encodeLoop env ip op nw nh (decay 95) (0 + 1) ?w1"
    by (rule encodeLoop_retry [OF b1]) (simp_all add: d1 maxAttempts_def)
  also have "\<dots> = encodeLoop env ip op nw nh (decay (decay 95)) (0 + 1 + 1) ?w2"
    by (rule encodeLoop_retry [OF b2' b2(2)]) (simp_all add: d1 d2 maxAttempts_def)
  also have "\<dots> = (Inl e, addCall (attemptCall env op nw nh (decay (decay 95))) ?w2)"
    by (rule encodeLoop_throws [OF e'])
  finally have "encodeLoop env ip op nw nh 95 0 w
      = (Inl e, addCall (attemptCall env op nw nh (decay (decay 95))) ?w2)" .
  with e show ?thesis
    by (auto simp add: newCalls_def addCall_def log_def attemptCall_sel d1 d2)
qed

text \<open>
  C5 says that when every encoding exceeds the budget, down to the one at quality 10,
  the loop ends with \<open>attempts = 10\<close> and \<open>quality = 10\<close> and returns the bytes without an
  error. \<open>noise.jpg\<close> is 600000 bytes at every quality of the floored sequence
  \<open>95, 76, 60, ..., 12, 10\<close>. The loop makes three encoder calls, the third at \<open>60.8\<close>,
  and throws the encoder's error; \<open>resizeImage\<close> throws it too and writes nothing.
\<close>

theorem non_convergence_throws:
  "set (map (sharp_toBuffer demoEnv ''original/noise.jpg'' 1024 512)
      [Jpeg 95 True, Jpeg 76 True, Jpeg 60 True, Jpeg 48 True, Jpeg 38 True, Jpeg 30 True,
       Jpeg 24 True, Jpeg 19 True, Jpeg 15 True, Jpeg 12 True, Jpeg 10 True])
     = {Inr (replicate 600000 0)} \<and>
   MAX_FILE_SIZE < length (replicate 600000 (0 :: 8 word)) \<and>
   fst (encodeLoop demoEnv ''original/noise.jpg'' ''output/noise.jpg'' 1024 512 95 0 emptyWorld) = Inl (Error ''Expected integer between 1 and 100 for quality'') \<and>
   length (encodes (snd (encodeLoop demoEnv ''original/noise.jpg'' ''output/noise.jpg'' 1024 512 95 0 emptyWorld))) = 3 \<and>
   fst (resizeImage demoEnv ''original/noise.jpg'' ''output/noise.jpg'' emptyWorld) = Inl (Error ''Expected integer between 1 and 100 for quality'') \<and>
   writes (snd (resizeImage demoEnv ''original/noise.jpg'' ''output/noise.jpg'' emptyWorld)) = []"
proof (intro conjI)
  show "set (map (sharp_toBuffer demoEnv ''original/noise.jpg'' 1024 512)
      [Jpeg 95 True, Jpeg 76 True, Jpeg 60 True, Jpeg 48 True, Jpeg 38 True, Jpeg 30 True,
       Jpeg 24 True, Jpeg 19 True, Jpeg 15 True, Jpeg 12 True, Jpeg 10 True])
     = {Inr (replicate 600000 0)}"
    by (rule noise_buffers(3))
  show "MAX_FILE_SIZE < length (replicate 600000 (0 :: 8 word))"
    by (simp add: MAX_FILE_SIZE_def)
  show "fst (encodeLoop demoEnv ''original/noise.jpg'' ''output/noise.jpg'' 1024 512 95 0 emptyWorld)
      = Inl (Error ''Expected integer between 1 and 100 for quality'')"
    by (rule noise_run(1))
  show "length (encodes (snd (encodeLoop demoEnv ''original/noise.jpg'' ''output/noise.jpg''
      1024 512 95 0 emptyWorld))) = 3"
    by (simp add: noise_run(2))
  show "fst (resizeImage demoEnv ''original/noise.jpg'' ''output/noise.jpg'' emptyWorld)
      = Inl (Error ''Expected integer between 1 and 100 for quality'')"
    by (rule noise_resize(1))
  show "writes (snd (resizeImage demoEnv ''original/noise.jpg'' ''output/noise.jpg'' emptyWorld)) = []"
    by (rule noise_resize(2))
qed

subsection \<open>The range of the quality\<close>

text \<open>
  C6 says that every attempt encodes at an integer quality from 10 to 95. The first
  two attempts on \<open>noise.jpg\<close> encode at 95 and 76; the third passes \<open>60.8\<close> to the JPEG
  encoder, which rejects it.
\<close>

theorem attempt_quality_not_integer:
  "map call_options (encodes (snd (encodeLoop demoEnv ''original/noise.jpg'' ''output/noise.jpg'' 1024 512 95 0 emptyWorld))) = [Jpeg 95 True, Jpeg 76 True, Jpeg (304 / 5) True] \<and>
   call_quality (encodes (snd (encodeLoop demoEnv ''original/noise.jpg'' ''output/noise.jpg'' 1024 512 95 0 emptyWorld)) ! 2) = 304 / 5 \<and>
   (304 / 5 :: rat) \<notin> \<int> \<and>
   sharp_toBuffer demoEnv ''original/noise.jpg'' 1024 512 (Jpeg (304 / 5) True) = Inl (Error ''Expected integer between 1 and 100 for quality'')"
  using not_int_304_5 by (simp add: noise_run noise_buffers)

subsection \<open>The PNG compression level\<close>

text \<open>
  C7. For a PNG output every attempt passes the compression level
  \<open>min(9, Math.round(9 * (100 - quality) / 100))\<close> of the current quality.
\<close>

theorem png_compression_level:
  assumes "getExtension env op = ''.png''"
  shows "\<forall>c \<in> set (newCalls w (snd (encodeLoop env ip op nw nh q a w))).
           call_options c
             = Png (min 9 (Math_round ((9 * (100 - call_quality c)) / 100))) (call_quality c)"
proof -
  obtain n where run: "loopRun env ip op nw nh q a w (encodeLoop env ip op nw nh q a w) n"
    using encodeLoop_run by blast
  show ?thesis
    unfolding loopRun_newCalls(1) [OF run]
    by (auto simp add: attemptCall_sel formatOptions_def assms)
qed

theorem png_compression_level_witness:
  "getExtension demoEnv ''output/b.PNG'' = ''.png'' \<and>
   call_options (newCalls emptyWorld (snd (encodeLoop demoEnv ''original/b.PNG'' ''output/b.PNG''
      1024 512 95 0 emptyWorld)) ! 1) = Png (min 9 (Math_round ((9 * (100 - 76)) / 100))) 76 \<and>
   min 9 (Math_round ((9 * (100 - 76)) / 100)) = 2"
  using png_compression_level [OF demo_ext(3), of emptyWorld "''original/b.PNG''" 1024 512 95 0]
  by (simp add: newCalls_emptyWorld png_encodes demo_ext Math_round_def floor_rat_numeral_div)

subsection \<open>A budget that is met\<close>



section \<open>Persistence and the batch\<close>

subsection \<open>The final buffer is written\<close>

text \<open>
  C10. When the dimensions are read and the loop returns without an encoder error, at
  least one attempt was made, the returned buffer is the result of the last encoder
  call, and \<open>storage.write(outputPath, buffer)\<close> is called with it whatever its length,
  also when the write or the size query after it throws.
\<close>

theorem final_buffer_written:
  assumes m: "sharp_metadata env ip = Inr (Some width, Some height)" "width \<noteq> 0" "height \<noteq> 0"
    and d: "newDimensions MAX_DIMENSION width height = (nw, nh)"
    and l: "encodeLoop env ip op nw nh 95 0 (log (Processing ip) w)
              = (Inr (buffer, quality, attempts), w1)"
  shows "1 \<le> attempts \<and> attempts = length (newCalls w w1) \<and>
         sharp_toBuffer env ip nw nh (call_options (last (encodes w1))) = Inr buffer \<and>
         writes (snd (resizeImage env ip op w)) = writes w @ [(op, buffer)]"
proof -
  let ?w0 = "log (Processing ip) w"
  obtain n where "loopRun env ip op nw nh 95 0 ?w0 (encodeLoop env ip op nw nh 95 0 ?w0) n"
    using encodeLoop_run by blast
  with l have run: "loopRun env ip op nw nh 95 0 ?w0 (Inr (buffer, quality, attempts), w1) n"
    by simp
  then have n: "1 \<le> n" by (simp add: loopRun_def)
  then obtain m where m': "n = Suc m" by (cases n) auto
  from run have enc: "encodes w1 = encodes w @ map (\<lambda>j. attemptCall env op nw nh ((decay ^^ j) 95)) [0..<n]"
    and wr: "writes w1 = writes w" and att: "attempts = n"
    and buf: "sharp_toBuffer env ip nw nh (formatOptions (getExtension env op) ((decay ^^ (n - 1)) 95))
                = Inr buffer"
    by (simp_all add: loopRun_def log_def)
  from enc have len: "length (newCalls w w1) = n" by (simp add: newCalls_def)
  from enc have "last (encodes w1) = attemptCall env op nw nh ((decay ^^ (n - 1)) 95)"
    unfolding m' by simp
  with buf have lastbuf: "sharp_toBuffer env ip nw nh (call_options (last (encodes w1))) = Inr buffer"
    by (simp add: attemptCall_sel)
  have "writes (snd (resizeImage env ip op w)) = writes w1 @ [(op, buffer)]"
    unfolding resizeImage_def resizeImage_try_dims [OF m d l]
    by (simp add: log_def split: sum.splits)
  with wr n att len lastbuf show ?thesis by simp
qed

theorem final_buffer_written_witness:
  "writes (snd (resizeImage demoEnv ''original/scan.tiff'' ''output/scan.tiff'' emptyWorld))
     = [(''output/scan.tiff'', replicate 600000 0)] \<and>
   MAX_FILE_SIZE < length (replicate 600000 (0 :: 8 word))"
proof -
  let ?w0 = "log (Processing ''original/scan.tiff'') emptyWorld"
  let ?run = "encodeLoop demoEnv ''original/scan.tiff'' ''output/scan.tiff'' 1024 512 95 0 ?w0"
  have m: "sharp_metadata demoEnv ''original/scan.tiff'' = Inr (Some 2000, Some 1000)"
    by (simp add: demoEnv_sel)
  have "fst ?run = Inr (replicate 600000 0, 19922944 / 1953125, 10)"
    using encodeLoop_fst_world [of demoEnv "''original/scan.tiff''" "''output/scan.tiff''" 1024 512
        95 0 ?w0 emptyWorld]
    by (simp add: tiff_run)
  then have l: "?run = (Inr (replicate 600000 0, 19922944 / 1953125, 10), snd ?run)"
    by (simp add: prod_eq_iff)
  from final_buffer_written [OF m _ _ demo_dims l]
  show ?thesis by (simp add: emptyWorld_def MAX_FILE_SIZE_def)
qed

subsection \<open>A failing file does not stop the batch\<close>

text \<open>
  C9. When \<open>resizeImage\<close> throws for some of the image files, \<open>processAllImages\<close>
  still returns normally: every image file is processed (its \<open>Processing\<close> line is
  printed), each failing file is reported and counted once, and the summary at the end
  prints the number of files processed and the number failed.
\<close>

theorem batch_continues_after_failure:
  assumes ens: "storage_ensureDestination env OUTPUT_FOLDER = Inr ()"
    and scan: "glob_scan env ORIGINAL_FOLDER = Inr files"
    and img: "imageFiles = filter (isSupportedImageFormat env) files"
    and failed: "failed = filter (resizeFails env) imageFiles"
    and some: "failed \<noteq> []"
  shows "fst (processAllImages env w) = Returned \<and>
         (\<exists>ls. console (snd (processAllImages env w))
                  = console w @ ls @ [Completed,
                      SuccessfullyProcessed (length imageFiles - length failed),
                      FailedCount (length failed)] \<and>
               (\<forall>f \<in> set imageFiles. Processing (path_join env ORIGINAL_FOLDER f) \<in> set ls) \<and>
               (\<forall>f \<in> set failed. \<exists>err. FailedToProcess f err \<in> set ls))"
proof -
  let ?w1 = "log (OutputFolderReady OUTPUT_FOLDER) (log Starting w)"
  let ?w2 = "log (Found (length imageFiles)) ?w1"
  from some failed have nonempty: "length imageFiles \<noteq> 0" by auto
  obtain p e w3 where pf: "processFiles env imageFiles 0 0 ?w2 = ((p, e), w3)"
    by (cases "processFiles env imageFiles 0 0 ?w2") auto
  from processFiles_counts [of env imageFiles 0 0 ?w2] pf
  have e: "e = length failed" and p': "p = length (filter (\<lambda>f. \<not> resizeFails env f) imageFiles)"
    by (simp_all add: failed)
  have p: "p = length imageFiles - length failed"
    using sum_length_filter_compl [of "resizeFails env" imageFiles] p' failed by simp
  from some e have epos: "0 < e" by simp
  from processFiles_console [of env imageFiles 0 0 ?w2] pf obtain ls
    where ls: "console w3 = console ?w2 @ ls"
      "\<forall>f \<in> set imageFiles. Processing (path_join env ORIGINAL_FOLDER f) \<in> set ls"
      "\<forall>f \<in> set imageFiles. resizeFails env f \<longrightarrow> (\<exists>err. FailedToProcess f err \<in> set ls)"
    by auto
  have run: "processAllImages env w
      = (Returned, log (FailedCount e) (log (SuccessfullyProcessed p) (log Completed w3)))"
    using ens scan img [symmetric] nonempty pf epos
    by (simp add: processAllImages_def ensureOutputFolder_def Let_def)
  let ?ls = "[Starting, OutputFolderReady OUTPUT_FOLDER, Found (length imageFiles)] @ ls"
  have "console (snd (processAllImages env w))
          = console w @ ?ls @ [Completed, SuccessfullyProcessed (length imageFiles - length failed),
                               FailedCount (length failed)]"
    using run ls(1) e p by (simp add: log_def)
  moreover have "\<forall>f \<in> set imageFiles. Processing (path_join env ORIGINAL_FOLDER f) \<in> set ?ls"
    using ls(2) by simp
  moreover have "\<forall>f \<in> set failed. \<exists>err. FailedToProcess f err \<in> set ?ls"
    using ls(3) failed by auto
  ultimately show ?thesis using run by (intro conjI exI [of _ ?ls]) simp_all
qed

theorem batch_continues_after_failure_witness:
  "fst (processAllImages demoEnv emptyWorld) = Returned \<and>
   last (console (snd (processAllImages demoEnv emptyWorld))) = FailedCount 1 \<and>
   SuccessfullyProcessed 2 \<in> set (console (snd (processAllImages demoEnv emptyWorld))) \<and>
   Processing ''original/c.webp'' \<in> set (console (snd (processAllImages demoEnv emptyWorld)))"
proof -
  have failed: "[''bad.PNG''] = filter (resizeFails demoEnv) [''a.jpg'', ''bad.PNG'', ''c.webp'']"
    by (simp add: demo_resize_a demo_resize_bad demo_resize_c)
  from batch_continues_after_failure [OF demoEnv_sel(6) demoEnv_sel(3) demo_imageFiles [symmetric]
      failed, of emptyWorld]
  show ?thesis by (auto simp add: demo_paths)
qed

end
